theory Spec2Isabelle
  imports Main "HOL-Library.Multiset"
begin

section \<open>The synchronised list of pymw.py\<close>

text \<open>
  Class \<open>_SyncList\<close> (pymw.py, lines 39 to 81) wraps a Python list \<open>_list\<close>, a lock
  \<open>_lock\<close> and a counting semaphore \<open>_sem\<close> that starts at zero. Every method takes
  the lock and gives it back before it returns, so between two calls of one thread the
  lock is free; the record below is the object as a caller sees it between calls. The
  lock itself, and the order in which several threads run the single statements of
  \<open>append\<close> and \<open>wait_pop\<close>, are the subject of the interleaving model further down.
\<close>

record 'a SyncList =
  sem :: nat
  lst :: "'a list"

definition SyncList_init :: "'a SyncList" where
  "SyncList_init = \<lparr>sem = 0, lst = []\<rparr>"

text \<open>
  What \<open>wait_pop\<close> hands back: the popped item, or Python's \<open>None\<close> from the
  \<open>except\<close> branch when \<open>list.pop()\<close> raised on an empty list.
\<close>

datatype 'a popped = Popped 'a | PopFailed

definition SyncList_len :: "'a SyncList \<Rightarrow> nat" where
  "SyncList_len q = length (lst q)"

definition SyncList_append :: "'a \<Rightarrow> 'a SyncList \<Rightarrow> 'a SyncList" where
  "SyncList_append item q = q\<lparr>lst := lst q @ [item], sem := sem q + 1\<rparr>"

text \<open>
  \<open>wait_pop\<close> first acquires the semaphore, which blocks while the count is zero: the
  result \<open>None\<close> stands for a call that does not return. Python's \<open>list.pop()\<close> takes
  the last element and raises IndexError on the empty list.
\<close>

definition SyncList_wait_pop :: "'a SyncList \<Rightarrow> ('a popped \<times> 'a SyncList) option" where
  "SyncList_wait_pop q =
     (if sem q = 0 then None
      else let q1 = q\<lparr>sem := sem q - 1\<rparr> in
        (case rev (lst q1) of
           [] \<Rightarrow> Some (PopFailed, q1)
         | item # rest \<Rightarrow> Some (Popped item, q1\<lparr>lst := rev rest\<rparr>)))"

definition SyncList_contains :: "'a SyncList \<Rightarrow> 'a \<Rightarrow> bool" where
  "SyncList_contains q item = (let n = count_list (lst q) item in if n \<noteq> 0 then True else False)"

text \<open>Drivers: a run of appends, and a run of \<open>n\<close> calls of \<open>wait_pop\<close> by one consumer.\<close>

fun appends :: "'a list \<Rightarrow> 'a SyncList \<Rightarrow> 'a SyncList" where
  "appends [] q = q"
| "appends (x # xs) q = appends xs (SyncList_append x q)"

fun wait_pops :: "nat \<Rightarrow> 'a SyncList \<Rightarrow> ('a popped list \<times> 'a SyncList) option" where
  "wait_pops 0 q = Some ([], q)"
| "wait_pops (Suc n) q =
     (case SyncList_wait_pop q of
        None \<Rightarrow> None
      | Some (r, q1) \<Rightarrow>
          (case wait_pops n q1 of
             None \<Rightarrow> None
           | Some (rs, q2) \<Rightarrow> Some (r # rs, q2)))"

section \<open>Exceptions and results\<close>

text \<open>
  The two exception classes pymw.py defines (lines 83 to 99), and the built-in ones its
  statements can raise. \<open>TaskException\<close> carries \<open>param\<close>; \<open>InterfaceException\<close> carries
  \<open>param\<close> and \<open>details\<close>.
\<close>

datatype exn =
    TaskException string
  | InterfaceException string string
  | Exception string
  | TypeError string
  | AttributeError string
  | IndexError string
  | IOError string
  | UnpicklingError string
  | EOFError string

fun is_TaskException :: "exn \<Rightarrow> bool" where
  "is_TaskException (TaskException _) = True"
| "is_TaskException _ = False"

fun is_InterfaceException :: "exn \<Rightarrow> bool" where
  "is_InterfaceException (InterfaceException _ _) = True"
| "is_InterfaceException _ = False"

text \<open>
  A call returns a value, raises, or blocks: a thread that waits for a signal only
  another thread can give does not return in the state it was called in.
\<close>

datatype 'a outcome = Returns 'a | Raises exn | Blocks

section \<open>Tasks\<close>

text \<open>
  The \<open>executable\<close> argument of a task is any Python object. The constructor accepts
  a string (a file name) or a function; \<open>str\<close> of the object goes into the generated
  task name, so an object that is not a string carries the text \<open>str\<close> gives for it.
\<close>

datatype executable = ExeString string | ExeFunction string | ExeOther string

fun str_executable :: "executable \<Rightarrow> string" where
  "str_executable (ExeString s) = s"
| "str_executable (ExeFunction s) = s"
| "str_executable (ExeOther s) = s"

text \<open>
  A task object (class \<open>PyMW_Task\<close>, lines 101 to 193). Payloads are opaque values of
  type \<open>'v\<close>; \<open>None\<close> is Python's \<open>None\<close>. The attribute \<open>_error\<close> is assigned first by
  \<open>task_finished\<close> and read only after the finish event is set, so one option holds it.
  The timestamps of \<open>_times\<close> are kept out: no statement modelled here reads them.
\<close>

record 'v PyMW_Task =
  task_name :: string
  executable :: executable
  input_data :: "'v option"
  output_data :: "'v option"
  input_arg :: string
  output_arg :: string
  error :: "exn option"
  finish_event :: bool

text \<open>
  The constructor. \<open>write_err\<close> is what the environment answers when the input data is
  pickled into the file \<open>input_arg\<close>: \<open>None\<close> when the file was written, the exception
  otherwise (\<open>open\<close> raising IOError, the pickler raising on the data).
  \<open>submit_task\<close> passes neither \<open>input_arg\<close> nor \<open>output_arg\<close>, so both file names
  are made from the directory and the task name.
\<close>

definition PyMW_Task_init ::
  "string \<Rightarrow> executable \<Rightarrow> 'v option \<Rightarrow> string \<Rightarrow> exn option \<Rightarrow> exn + 'v PyMW_Task" where
  "PyMW_Task_init name exe input file_loc write_err =
     (case exe of
        ExeOther _ \<Rightarrow> Inl (TypeError ''executable must be a filename or Python function'')
      | _ \<Rightarrow>
         (case write_err of
            Some e \<Rightarrow> Inl e
          | None \<Rightarrow>
              Inr \<lparr>task_name = name, executable = exe, input_data = input,
                   output_data = None,
                   input_arg = file_loc @ ''/in_'' @ name @ ''.dat'',
                   output_arg = file_loc @ ''/out_'' @ name @ ''.dat'',
                   error = None, finish_event = False\<rparr>))"

text \<open>
  What reading the output file gives in \<open>task_finished\<close>: an OSError or IOError, which
  the method swallows; any other exception of \<open>open\<close>, of the unpickler or of \<open>close\<close>,
  which passes through it; or the unpickled value (\<open>None\<close> for a pickled \<open>None\<close>).
\<close>

datatype 'v read_result = ReadIOError | ReadRaises exn | ReadValue "'v option"

text \<open>
  \<open>task_finished\<close> (lines 143 to 161): records the error, tries to load the output,
  then sets the finish event. An exception that is not swallowed leaves the method
  before the event is set; the assignment to \<open>_error\<close> has happened by then.
\<close>

definition task_finished ::
  "exn option \<Rightarrow> 'v read_result \<Rightarrow> 'v PyMW_Task \<Rightarrow> unit outcome \<times> 'v PyMW_Task" where
  "task_finished task_err rd t =
     (let t1 = t\<lparr>error := task_err\<rparr> in
      case rd of
        ReadRaises e \<Rightarrow> (Raises e, t1)
      | ReadIOError \<Rightarrow> (Returns (), t1\<lparr>finish_event := True\<rparr>)
      | ReadValue v \<Rightarrow> (Returns (), t1\<lparr>output_data := v, finish_event := True\<rparr>))"

text \<open>
  \<open>is_task_finished\<close> (lines 163 to 169). With \<open>wait\<close> set and the event not set the
  caller waits for the event.
\<close>

definition is_task_finished :: "'v PyMW_Task \<Rightarrow> bool \<Rightarrow> bool outcome" where
  "is_task_finished t wait =
     (if \<not> finish_event t then (if \<not> wait then Returns False else Blocks)
      else Returns True)"

section \<open>The master\<close>

text \<open>
  Task objects are shared: the registry and the queue hold references to them and a
  backend changes them through \<open>task_finished\<close>. A reference is a number, \<open>tasks\<close> is
  the store that gives the object behind each reference, and \<open>next_task\<close> is the
  reference the next constructed object gets. Comparing two tasks (\<open>list.count\<close> in
  \<open>contains\<close>) compares references, since the class defines no equality.

  The scheduler object holds the same queue object as the master and one flag
  \<open>_finished\<close>; both live in the master's record. An item of the queue is a task, or
  the \<open>None\<close> that \<open>_exit\<close> appends.
\<close>

type_synonym task_ref = nat

record 'v PyMW_Master =
  submitted_tasks :: "task_ref SyncList"
  queued_tasks :: "task_ref option SyncList"
  use_state_records :: bool
  task_dir_name :: string
  cur_task_num :: nat
  scheduler_finished :: bool
  tasks :: "task_ref \<Rightarrow> 'v PyMW_Task"
  next_task :: task_ref

definition blank_task :: "'v PyMW_Task" where
  "blank_task = \<lparr>task_name = [], executable = ExeOther [], input_data = None,
     output_data = None, input_arg = [], output_arg = [], error = None,
     finish_event = False\<rparr>"

definition PyMW_Master_init :: "bool \<Rightarrow> 'v PyMW_Master" where
  "PyMW_Master_init use_records =
     \<lparr>submitted_tasks = SyncList_init, queued_tasks = SyncList_init,
      use_state_records = use_records, task_dir_name = ''tasks'', cur_task_num = 0,
      scheduler_finished = False, tasks = (\<lambda>_. blank_task), next_task = 0\<rparr>"

text \<open>Python's \<open>str\<close> of a non-negative integer: its decimal digits.\<close>

definition digit_char :: "nat \<Rightarrow> char" where
  "digit_char d = ''0123456789'' ! d"

function str_nat :: "nat \<Rightarrow> string" where
  "str_nat n = (if n < 10 then [digit_char n] else str_nat (n div 10) @ [digit_char (n mod 10)])"
  by pat_completeness auto
termination
  by (relation "measure id") auto

declare str_nat.simps [simp del]

text \<open>
  The loop of \<open>submit_task\<close> over the registry (lines 268 to 270), through the iterator
  \<open>_SyncListIter\<close>: position \<open>pos\<close> runs up from 0; the first task whose name is the
  wanted one is returned.
\<close>

function find_submitted ::
  "(task_ref \<Rightarrow> 'v PyMW_Task) \<Rightarrow> task_ref SyncList \<Rightarrow> string \<Rightarrow> nat \<Rightarrow> task_ref option" where
  "find_submitted store reg name pos =
     (if pos \<ge> SyncList_len reg then None
      else let task = lst reg ! pos in
        if task_name (store task) = name then Some task
        else find_submitted store reg name (pos + 1))"
  by pat_completeness auto
termination
  by (relation "measure (\<lambda>(store, reg, name, pos). SyncList_len reg - pos)") auto

declare find_submitted.simps [simp del]

text \<open>
  \<open>submit_task\<close> (lines 255 to 275). A name that is \<open>None\<close> or the empty string counts
  as not given. The counter moves before anything can fail.
\<close>

definition submit_task ::
  "'v PyMW_Master \<Rightarrow> executable \<Rightarrow> 'v option \<Rightarrow> string option \<Rightarrow> exn option
     \<Rightarrow> task_ref outcome \<times> 'v PyMW_Master" where
  "submit_task m exe input new_task_name write_err =
     (let (name, m1) =
        (case new_task_name of
           Some (c # cs) \<Rightarrow> (c # cs, m)
         | _ \<Rightarrow> (str_executable exe @ ''_'' @ str_nat (cur_task_num m),
                 m\<lparr>cur_task_num := cur_task_num m + 1\<rparr>));
        found =
          (if use_state_records m1 then find_submitted (tasks m1) (submitted_tasks m1) name 0
           else None)
      in case found of
           Some task \<Rightarrow> (Returns task, m1)
         | None \<Rightarrow>
            (case PyMW_Task_init name exe input (task_dir_name m1) write_err of
               Inl e \<Rightarrow> (Raises e, m1)
             | Inr new_task \<Rightarrow>
                 let r = next_task m1 in
                 (Returns r,
                  m1\<lparr>tasks := (tasks m1)(r := new_task), next_task := r + 1,
                     submitted_tasks := SyncList_append r (submitted_tasks m1),
                     queued_tasks := SyncList_append (Some r) (queued_tasks m1)\<rparr>)))"

text \<open>\<open>PyMW_Scheduler._exit\<close> (lines 218 to 221).\<close>

definition Scheduler_exit :: "'v PyMW_Master \<Rightarrow> 'v PyMW_Master" where
  "Scheduler_exit m =
     m\<lparr>scheduler_finished := True, queued_tasks := SyncList_append None (queued_tasks m)\<rparr>"

text \<open>
  \<open>PyMW_Scheduler._scheduler\<close> (lines 206 to 216), the loop of the scheduler thread,
  run on its own from a state of the master: it returns the tasks it has started, in
  order, and the master it leaves. A popped item that is not \<open>None\<close> is a task: the
  loop asks the backend for a worker and starts a thread that runs the backend's
  \<open>execute_task\<close> on it; starting that thread is the entry in the list. The flag is
  set by other threads only, so the loop that finds the queue's semaphore at zero
  before it finds the flag set does not return. \<open>Scheduler_after_wait\<close> is the loop
  entered at its call of \<open>wait_pop\<close> (line 209), where the thread waits when the
  queue is empty.
\<close>

function Scheduler_scheduler :: "'v PyMW_Master \<Rightarrow> (task_ref list \<times> 'v PyMW_Master) option" where
  "Scheduler_scheduler m =
     (if \<not> scheduler_finished m then
        (case SyncList_wait_pop (queued_tasks m) of
           None \<Rightarrow> None
         | Some (item, q) \<Rightarrow>
            (case Scheduler_scheduler (m\<lparr>queued_tasks := q\<rparr>) of
               None \<Rightarrow> None
             | Some (started, m') \<Rightarrow>
                 Some ((case item of Popped (Some t) \<Rightarrow> [t] | _ \<Rightarrow> []) @ started, m')))
      else Some ([], m))"
  by pat_completeness auto
termination
  by (relation "measure (\<lambda>m. sem (queued_tasks m))")
    (auto simp: SyncList_wait_pop_def Let_def split: if_splits list.splits)

declare Scheduler_scheduler.simps [simp del]

definition Scheduler_after_wait :: "'v PyMW_Master \<Rightarrow> (task_ref list \<times> 'v PyMW_Master) option" where
  "Scheduler_after_wait m =
     (case SyncList_wait_pop (queued_tasks m) of
        None \<Rightarrow> None
      | Some (item, q) \<Rightarrow>
         (case Scheduler_scheduler (m\<lparr>queued_tasks := q\<rparr>) of
            None \<Rightarrow> None
          | Some (started, m') \<Rightarrow>
              Some ((case item of Popped (Some t) \<Rightarrow> [t] | _ \<Rightarrow> []) @ started, m')))"

text \<open>
  \<open>get_result\<close> (lines 277 to 294). With \<open>task\<close> omitted the first test is skipped, and
  once the registry is not empty the call \<open>task.is_task_finished\<close> is made on \<open>None\<close>.
  An exception object is true in a test, so an error that is set is raised.
\<close>

definition get_result ::
  "'v PyMW_Master \<Rightarrow> task_ref option \<Rightarrow> bool
     \<Rightarrow> (task_ref option \<times> 'v option) outcome \<times> 'v PyMW_Master" where
  "get_result m task wait =
     (if (case task of None \<Rightarrow> False
          | Some t \<Rightarrow> \<not> SyncList_contains (submitted_tasks m) t)
      then (Raises (TaskException ''Task has not been submitted''), m)
      else if SyncList_len (submitted_tasks m) = 0
      then (Raises (TaskException ''No tasks yet submitted''), m)
      else
        (case task of
           None \<Rightarrow>
             (Raises (AttributeError
                ''NoneType object has no attribute is_task_finished''), m)
         | Some t \<Rightarrow>
            (case is_task_finished (tasks m t) wait of
               Blocks \<Rightarrow> (Blocks, m)
             | Raises e \<Rightarrow> (Raises e, m)
             | Returns False \<Rightarrow> (Returns (None, None), m)
             | Returns True \<Rightarrow>
                (case error (tasks m t) of
                   Some e \<Rightarrow> (Raises e, Scheduler_exit m)
                 | None \<Rightarrow> (Returns (Some t, output_data (tasks m t)), m)))))"

section \<open>Runs of calls on a master\<close>

text \<open>
  What happens to a master between its construction and a call under study: calls of
  \<open>submit_task\<close> and \<open>get_result\<close> by the user, and calls of \<open>task_finished\<close> by a
  backend on a task it was handed. \<open>run\<close> performs a list of them in order, whatever
  each one returns or raises.
\<close>

datatype 'v call =
    Submit executable "'v option" "string option" "exn option"
  | GetResult "task_ref option" bool
  | TaskFinished task_ref "exn option" "'v read_result"

fun perform :: "'v PyMW_Master \<Rightarrow> 'v call \<Rightarrow> 'v PyMW_Master" where
  "perform m (Submit exe input name write_err) = snd (submit_task m exe input name write_err)"
| "perform m (GetResult task wait) = snd (get_result m task wait)"
| "perform m (TaskFinished t task_err rd) =
     m\<lparr>tasks := (tasks m)(t := snd (task_finished task_err rd (tasks m t)))\<rparr>"

definition run :: "'v call list \<Rightarrow> 'v PyMW_Master \<Rightarrow> 'v PyMW_Master" where
  "run calls m = foldl perform m calls"

text \<open>The names of the tasks in the registry, in the order of the registry.\<close>

definition submitted_names :: "'v PyMW_Master \<Rightarrow> string list" where
  "submitted_names m = map (\<lambda>t. task_name (tasks m t)) (lst (submitted_tasks m))"

text \<open>
  The name \<open>submit_task\<close> works with, and the master after the name was chosen: the
  two components of the pair its first statement computes.
\<close>

definition chosen_name :: "'v PyMW_Master \<Rightarrow> executable \<Rightarrow> string option \<Rightarrow> string" where
  "chosen_name m exe new_task_name =
     (case new_task_name of
        Some (c # cs) \<Rightarrow> c # cs
      | _ \<Rightarrow> str_executable exe @ ''_'' @ str_nat (cur_task_num m))"

definition after_naming :: "'v PyMW_Master \<Rightarrow> string option \<Rightarrow> 'v PyMW_Master" where
  "after_naming m new_task_name =
     (case new_task_name of
        Some (c # cs) \<Rightarrow> m
      | _ \<Rightarrow> m\<lparr>cur_task_num := cur_task_num m + 1\<rparr>)"

text \<open>
  Invariants of the registry. \<open>registry_ok\<close>: the names are pairwise distinct and not
  empty, and every reference in the registry was handed out already. \<open>auto_named\<close>:
  every name ends in an underscore and the digits of a number below the counter.
  \<open>unnamed\<close>: a call that passes no name to \<open>submit_task\<close>.
\<close>

definition registry_ok :: "'v PyMW_Master \<Rightarrow> bool" where
  "registry_ok m \<longleftrightarrow>
     distinct (submitted_names m) \<and> [] \<notin> set (submitted_names m)
     \<and> (\<forall>t \<in> set (lst (submitted_tasks m)). t < next_task m)"

definition auto_named :: "'v PyMW_Master \<Rightarrow> bool" where
  "auto_named m \<longleftrightarrow>
     (\<forall>n \<in> set (submitted_names m). \<exists>s k. n = s @ ''_'' @ str_nat k \<and> k < cur_task_num m)"

definition unnamed :: "'v call \<Rightarrow> bool" where
  "unnamed c = (case c of Submit exe input name write_err \<Rightarrow> name = None \<or> name = Some []
                | _ \<Rightarrow> True)"

definition names_ok :: "'v PyMW_Master \<Rightarrow> bool" where
  "names_ok m \<longleftrightarrow> registry_ok m \<and> (use_state_records m \<or> auto_named m)"

section \<open>Threads on one synchronised list\<close>

text \<open>
  Several threads call \<open>append\<close> and \<open>wait_pop\<close> on one list at once. A thread is
  at one statement of its method; a step runs that statement. The statements of
  \<open>append(item)\<close> (lines 58 to 61): take the lock, append to the list, release the
  semaphore, give the lock back. Those of \<open>wait_pop\<close> (lines 65 to 73): acquire the
  semaphore, take the lock, pop the list (the \<open>except\<close> branch when the list is
  empty), give the lock back in the \<open>finally\<close> clause and return. The statement on
  the list is one step, as one bytecode of the interpreter is. An entry of \<open>threads\<close>
  is one call; a thread that calls several times, as the scheduler does, is one
  entry for each call, and the order of its calls only rules schedules out.
\<close>

datatype 'a pc =
    Append_lock 'a
  | Append_list 'a
  | Append_sem 'a
  | Append_unlock 'a
  | Append_done 'a
  | Pop_sem
  | Pop_lock
  | Pop_list
  | Pop_unlock "'a popped"
  | Pop_done "'a popped"

record 'a threads_state =
  queue :: "'a SyncList"
  lock :: bool
  threads :: "'a pc list"

text \<open>
  One step of thread \<open>i\<close>. \<open>None\<close>: the thread cannot move, because it waits for the
  lock or for the semaphore, or has returned, or does not exist.
\<close>

definition thread_step :: "nat \<Rightarrow> 'a threads_state \<Rightarrow> 'a threads_state option" where
  "thread_step i c =
     (if i \<ge> length (threads c) then None
      else
        (case threads c ! i of
           Append_lock x \<Rightarrow>
             if lock c then None
             else Some (c\<lparr>lock := True, threads := (threads c)[i := Append_list x]\<rparr>)
         | Append_list x \<Rightarrow>
             Some (c\<lparr>queue := (queue c)\<lparr>lst := lst (queue c) @ [x]\<rparr>,
                     threads := (threads c)[i := Append_sem x]\<rparr>)
         | Append_sem x \<Rightarrow>
             Some (c\<lparr>queue := (queue c)\<lparr>sem := sem (queue c) + 1\<rparr>,
                     threads := (threads c)[i := Append_unlock x]\<rparr>)
         | Append_unlock x \<Rightarrow>
             Some (c\<lparr>lock := False, threads := (threads c)[i := Append_done x]\<rparr>)
         | Append_done x \<Rightarrow> None
         | Pop_sem \<Rightarrow>
             if sem (queue c) = 0 then None
             else Some (c\<lparr>queue := (queue c)\<lparr>sem := sem (queue c) - 1\<rparr>,
                          threads := (threads c)[i := Pop_lock]\<rparr>)
         | Pop_lock \<Rightarrow>
             if lock c then None
             else Some (c\<lparr>lock := True, threads := (threads c)[i := Pop_list]\<rparr>)
         | Pop_list \<Rightarrow>
             (case rev (lst (queue c)) of
                [] \<Rightarrow> Some (c\<lparr>threads := (threads c)[i := Pop_unlock PopFailed]\<rparr>)
              | item # rest \<Rightarrow>
                  Some (c\<lparr>queue := (queue c)\<lparr>lst := rev rest\<rparr>,
                          threads := (threads c)[i := Pop_unlock (Popped item)]\<rparr>))
         | Pop_unlock r \<Rightarrow>
             Some (c\<lparr>lock := False, threads := (threads c)[i := Pop_done r]\<rparr>)
         | Pop_done r \<Rightarrow> None))"

text \<open>
  A schedule names the thread that moves next; it runs as long as each named thread
  can move. Every thread starts at the first statement of its method, on a fresh list.
\<close>

fun run_threads :: "nat list \<Rightarrow> 'a threads_state \<Rightarrow> 'a threads_state option" where
  "run_threads [] c = Some c"
| "run_threads (i # sched) c =
     (case thread_step i c of None \<Rightarrow> None | Some c1 \<Rightarrow> run_threads sched c1)"

fun starting :: "'a pc \<Rightarrow> bool" where
  "starting (Append_lock x) = True"
| "starting Pop_sem = True"
| "starting _ = False"

definition threads_init :: "'a pc list \<Rightarrow> 'a threads_state" where
  "threads_init ts = \<lparr>queue = SyncList_init, lock = False, threads = ts\<rparr>"

text \<open>
  Bookkeeping for the invariant. \<open>holds_sem\<close>: the thread stands between a change of
  the list and the matching change of the semaphore (it appended and has not released
  yet, or it acquired and has not popped yet). \<open>appended_by\<close> and \<open>popped_by\<close>: the
  item the thread has put on the list, or has taken from it. \<open>pop_failed\<close>: the thread
  went through the \<open>except\<close> branch. \<open>item_of\<close> and \<open>is_popper\<close> tell what a thread
  was started for, \<open>thread_done\<close> that it has returned.
\<close>

fun holds_sem :: "'a pc \<Rightarrow> nat" where
  "holds_sem (Append_sem x) = 1"
| "holds_sem Pop_lock = 1"
| "holds_sem Pop_list = 1"
| "holds_sem _ = 0"

fun appended_by :: "'a pc \<Rightarrow> 'a multiset" where
  "appended_by (Append_sem x) = {#x#}"
| "appended_by (Append_unlock x) = {#x#}"
| "appended_by (Append_done x) = {#x#}"
| "appended_by _ = {#}"

fun popped_by :: "'a pc \<Rightarrow> 'a multiset" where
  "popped_by (Pop_unlock (Popped x)) = {#x#}"
| "popped_by (Pop_done (Popped x)) = {#x#}"
| "popped_by _ = {#}"

fun pop_failed :: "'a pc \<Rightarrow> bool" where
  "pop_failed (Pop_unlock PopFailed) = True"
| "pop_failed (Pop_done PopFailed) = True"
| "pop_failed _ = False"

definition threads_inv :: "'a threads_state \<Rightarrow> bool" where
  "threads_inv c \<longleftrightarrow>
     length (lst (queue c)) = sem (queue c) + sum_list (map holds_sem (threads c))
     \<and> mset (lst (queue c)) + sum_list (map popped_by (threads c))
         = sum_list (map appended_by (threads c))
     \<and> \<not> list_ex pop_failed (threads c)"

fun item_of :: "'a pc \<Rightarrow> 'a multiset" where
  "item_of (Append_lock x) = {#x#}"
| "item_of (Append_list x) = {#x#}"
| "item_of (Append_sem x) = {#x#}"
| "item_of (Append_unlock x) = {#x#}"
| "item_of (Append_done x) = {#x#}"
| "item_of _ = {#}"

fun is_popper :: "'a pc \<Rightarrow> nat" where
  "is_popper Pop_sem = 1"
| "is_popper Pop_lock = 1"
| "is_popper Pop_list = 1"
| "is_popper (Pop_unlock r) = 1"
| "is_popper (Pop_done r) = 1"
| "is_popper _ = 0"

fun thread_done :: "'a pc \<Rightarrow> bool" where
  "thread_done (Append_done x) = True"
| "thread_done (Pop_done r) = True"
| "thread_done _ = False"

section \<open>The Condor backend\<close>

text \<open>
  Class \<open>CondorInterface\<close> of interfaces/condor.py. \<open>_task_list\<close> holds, for every job
  handed to Condor, the task and the names of its error, log and submit files; the
  flag \<open>_result_checker_running\<close> says that the polling thread was started. The
  constructor (lines 31 to 45) fills in the locations of the interpreter and of
  \<open>condor_submit\<close>; \<open>win\<close> says whether the platform is Windows.
\<close>

record CondorInterface =
  python_loc :: string
  condor_submit_loc :: string
  task_list :: "(task_ref \<times> string \<times> string \<times> string) list"
  result_checker_running :: bool

definition CondorInterface_init :: "bool \<Rightarrow> string \<Rightarrow> string \<Rightarrow> CondorInterface" where
  "CondorInterface_init win py_loc submit_loc =
     \<lparr>python_loc =
        (if win then (if py_loc \<noteq> [] then py_loc
                      else ''C:'' @ [CHR 0x5C] @ ''Python25'' @ [CHR 0x5C] @ ''python.exe'')
         else (if py_loc \<noteq> [] then py_loc else ''/usr/local/bin/python'')),
      condor_submit_loc =
        (if win then (if submit_loc \<noteq> [] then submit_loc
                      else ''C:'' @ [CHR 0x5C] @ ''condor'' @ [CHR 0x5C] @ ''bin''
                           @ [CHR 0x5C] @ ''condor_submit.exe'')
         else (if submit_loc \<noteq> [] then submit_loc else ''condor_submit'')),
      task_list = [], result_checker_running = False\<rparr>"

text \<open>Python's \<open>str.split\<close> with a separator of one character.\<close>

fun py_split :: "char \<Rightarrow> string \<Rightarrow> string list" where
  "py_split sep [] = [[]]"
| "py_split sep (c # cs) =
     (if c = sep then [] # py_split sep cs
      else (case py_split sep cs of
              [] \<Rightarrow> [[c]]
            | p # ps \<Rightarrow> (c # p) # ps))"

text \<open>
  What the environment answers during \<open>execute_task\<close>: writing the submit file may
  raise; \<open>subprocess.Popen\<close> raises OSError when the program cannot be started, and
  otherwise \<open>communicate\<close> gives what the process wrote to its output and error
  streams; \<open>output_file\<close> is what \<open>task_finished\<close> finds when it loads the task's
  output file.
\<close>

datatype popen_result = PopenOSError | PopenOutput string string

record 'v condor_env =
  submit_file_error :: "exn option"
  submit_result :: popen_result
  output_file :: "'v read_result"

text \<open>
  \<open>execute_task\<close> (lines 83 to 135). The job description is the template with its
  place holders replaced; it is written to the submit file and not read again here,
  so only the statements of its computation that can raise are kept: replacing a
  place holder by an \<open>executable\<close> that is not a string raises TypeError, and
  \<open>task._executable.split('/')[1]\<close> raises IndexError when the string has no slash.
  \<open>os.getcwd\<close> is taken to succeed. The removal of old files swallows every
  exception. Both calls of \<open>task_finished\<close>
  are the last statement of their branch, so what they raise leaves \<open>execute_task\<close>
  (the handler of the \<open>try\<close> statement catches OSError only, which \<open>task_finished\<close>
  swallows itself). Starting the polling thread is the assignment of the flag.
\<close>

definition Condor_execute_task ::
  "CondorInterface \<Rightarrow> 'v condor_env \<Rightarrow> task_ref \<Rightarrow> 'v PyMW_Task
     \<Rightarrow> unit outcome \<times> CondorInterface \<times> 'v PyMW_Task" where
  "Condor_execute_task iface env r task =
     (case executable task of
        ExeString exe \<Rightarrow>
          (case py_split CHR ''/'' exe of
             p0 # p1 # ps \<Rightarrow>
               (let err_file_name = ''tasks/'' @ task_name task @ ''.err'';
                    log_file_name = ''tasks/'' @ task_name task @ ''.log'';
                    submit_file_name = ''tasks/'' @ task_name task @ ''_condor''
                in case submit_file_error env of
                     Some e \<Rightarrow> (Raises e, iface, task)
                   | None \<Rightarrow>
                      (case submit_result env of
                         PopenOutput proc_stdout proc_stderr \<Rightarrow>
                           if proc_stderr \<noteq> [] then
                             (let (res, task1) =
                                task_finished
                                  (Some (Exception (''condor_submit failed with error:''
                                     @ [CHR 0x0A] @ proc_stderr)))
                                  (output_file env) task
                              in (res, iface, task1))
                           else
                             (Returns (),
                              iface\<lparr>task_list := task_list iface
                                      @ [(r, err_file_name, log_file_name, submit_file_name)],
                                    result_checker_running := True\<rparr>,
                              task)
                       | PopenOSError \<Rightarrow>
                           (let (res, task1) =
                              task_finished
                                (Some (Exception (''Could not find task submission program ''
                                   @ condor_submit_loc iface)))
                                (output_file env) task
                            in (res, iface, task1))))
           | _ \<Rightarrow> (Raises (IndexError ''list index out of range''), iface, task))
      | _ \<Rightarrow> (Raises (TypeError ''expected a character buffer object''), iface, task))"

text \<open>
  The two ways a submission fails in \<open>execute_task\<close>, and the exception object the
  method makes for each.
\<close>

definition submission_fails :: "'v condor_env \<Rightarrow> bool" where
  "submission_fails env =
     (case submit_result env of
        PopenOSError \<Rightarrow> True
      | PopenOutput proc_stdout proc_stderr \<Rightarrow> proc_stderr \<noteq> [])"

definition submission_error :: "CondorInterface \<Rightarrow> 'v condor_env \<Rightarrow> exn" where
  "submission_error iface env =
     (case submit_result env of
        PopenOSError \<Rightarrow>
          Exception (''Could not find task submission program '' @ condor_submit_loc iface)
      | PopenOutput proc_stdout proc_stderr \<Rightarrow>
          Exception (''condor_submit failed with error:'' @ [CHR 0x0A] @ proc_stderr))"

section \<open>Properties of the synchronised list\<close>

lemma appends_eq: "appends xs q = q\<lparr>lst := lst q @ xs, sem := sem q + length xs\<rparr>"
  by (induction xs arbitrary: q) (simp_all add: SyncList_append_def)

lemma wait_pop_snoc:
  "SyncList_wait_pop (q\<lparr>lst := ys @ [x], sem := Suc n\<rparr>) = Some (Popped x, q\<lparr>lst := ys, sem := n\<rparr>)"
  by (simp add: SyncList_wait_pop_def)

lemma wait_pops_appended:
  "wait_pops (length xs) (q\<lparr>lst := ys @ xs, sem := n + length xs\<rparr>)
     = Some (map Popped (rev xs), q\<lparr>lst := ys, sem := n\<rparr>)"
proof (induction xs rule: rev_induct)
  case Nil
  show ?case by simp
next
  case (snoc x xs)
  have "SyncList_wait_pop (q\<lparr>lst := ys @ xs @ [x], sem := Suc (n + length xs)\<rparr>)
          = Some (Popped x, q\<lparr>lst := ys @ xs, sem := n + length xs\<rparr>)"
    using wait_pop_snoc [where q = q and ys = "ys @ xs" and x = x and n = "n + length xs"]
    by simp
  then show ?case
    using snoc.IH by simp
qed

text \<open>
  Claim C9. \<open>wait_pop\<close> takes the item appended last: after \<open>a\<close> and then \<open>b\<close> were
  appended, the first call returns \<open>b\<close> and leaves the list as it was before \<open>b\<close> came,
  and the next call returns \<open>a\<close>. The order is last in, first out.
\<close>

theorem wait_pop_returns_newest:
  "SyncList_wait_pop (SyncList_append b (SyncList_append a q))
     = Some (Popped b, SyncList_append a q)
   \<and> SyncList_wait_pop (SyncList_append a q) = Some (Popped a, q)"
  by (simp add: SyncList_wait_pop_def SyncList_append_def)

text \<open>
  Claim C2. After the items \<open>xs\<close> were appended one after the other, as many calls of
  \<open>wait_pop\<close> as there are items all return, and the popped values are the appended
  items, each as often as it was appended (in reverse order): none is lost, and when
  the items are distinct none comes twice. The list is left as it was before.
\<close>

theorem appends_then_wait_pops:
  "\<exists>ps. wait_pops (length xs) (appends xs q) = Some (map Popped ps, q)
        \<and> ps = rev xs \<and> mset ps = mset xs \<and> set ps = set xs
        \<and> length ps = length xs \<and> (distinct xs \<longrightarrow> distinct ps)"
proof -
  have "wait_pops (length xs) (appends xs q) = Some (map Popped (rev xs), q)"
    using wait_pops_appended [where xs = xs and q = q and ys = "lst q" and n = "sem q"]
    by (simp add: appends_eq)
  then show ?thesis by simp
qed

theorem appends_then_wait_pops_witness:
  "\<exists>ps. wait_pops (length [1, 2, 3 :: nat]) (appends [1, 2, 3 :: nat] SyncList_init)
          = Some (map Popped ps, SyncList_init)
        \<and> ps = [3, 2, 1] \<and> distinct ps"
  using appends_then_wait_pops [where xs = "[1, 2, 3 :: nat]" and q = SyncList_init]
  by simp

section \<open>Properties of tasks\<close>

lemma task_finished_error: "error (snd (task_finished task_err rd t)) = task_err"
  by (simp add: task_finished_def Let_def split: read_result.split)

lemma task_finished_name: "task_name (snd (task_finished task_err rd t)) = task_name t"
  by (simp add: task_finished_def Let_def split: read_result.split)

lemma new_task_fields:
  "PyMW_Task_init name exe input file_loc write_err = Inr t \<Longrightarrow>
   task_name t = name \<and> output_data t = None \<and> error t = None \<and> \<not> finish_event t"
  by (auto simp: PyMW_Task_init_def split: executable.splits option.splits)

text \<open>
  Claim C5, as the code has it. \<open>task_finished\<close> records the error it is given and
  loads the output file whatever that error is. When the file is read, the task is
  finished and its output is the unpickled value, with or without an error; when
  opening or reading it raises IOError or OSError, the task is finished and its
  output is left as it was, which is \<open>None\<close> for a task that had none. So the output
  of a finished task is set exactly when its output file could be read and held a
  value other than \<open>None\<close>.
\<close>

theorem task_finished_output:
  "error (snd (task_finished task_err rd t)) = task_err
   \<and> (case rd of
        ReadValue v \<Rightarrow>
          task_finished task_err rd t
            = (Returns (), t\<lparr>error := task_err, output_data := v, finish_event := True\<rparr>)
      | ReadIOError \<Rightarrow>
          task_finished task_err rd t
            = (Returns (), t\<lparr>error := task_err, finish_event := True\<rparr>)
      | ReadRaises e \<Rightarrow> True)"
  by (simp add: task_finished_def Let_def split: read_result.split)

text \<open>
  The claim as the specification words it fails in both directions, here on the task
  \<open>job\<close> as its constructor makes it: finished with an error it has the output 6
  when the output file is there, and finished without error it has no output when
  the file is missing.
\<close>

theorem task_finished_output_counterexample:
  "task_finished (Some (Exception ''failed'')) (ReadValue (Some (6 :: nat)))
      \<lparr>task_name = ''job'', executable = ExeString ''scripts/worker.py'',
       input_data = Some 1, output_data = None,
       input_arg = ''tasks/in_job.dat'', output_arg = ''tasks/out_job.dat'',
       error = None, finish_event = False\<rparr>
     = (Returns (),
        \<lparr>task_name = ''job'', executable = ExeString ''scripts/worker.py'',
         input_data = Some 1, output_data = Some 6,
         input_arg = ''tasks/in_job.dat'', output_arg = ''tasks/out_job.dat'',
         error = Some (Exception ''failed''), finish_event = True\<rparr>)
   \<and> task_finished None ReadIOError
      \<lparr>task_name = ''job'', executable = ExeString ''scripts/worker.py'',
       input_data = Some (1 :: nat), output_data = None,
       input_arg = ''tasks/in_job.dat'', output_arg = ''tasks/out_job.dat'',
       error = None, finish_event = False\<rparr>
     = (Returns (),
        \<lparr>task_name = ''job'', executable = ExeString ''scripts/worker.py'',
         input_data = Some 1, output_data = None,
         input_arg = ''tasks/in_job.dat'', output_arg = ''tasks/out_job.dat'',
         error = None, finish_event = True\<rparr>)"
  by (simp add: task_finished_def)

section \<open>Properties of get_result\<close>

lemma contains_iff: "SyncList_contains q x \<longleftrightarrow> x \<in> set (lst q)"
  using count_list_0_iff [of "lst q" x] by (auto simp: SyncList_contains_def)

lemma contains_len: "SyncList_contains q x \<Longrightarrow> SyncList_len q \<noteq> 0"
  by (auto simp: contains_iff SyncList_len_def)

lemma get_result_None:
  "SyncList_len (submitted_tasks m) \<noteq> 0 \<Longrightarrow>
   get_result m None wait
     = (Raises (AttributeError ''NoneType object has no attribute is_task_finished''), m)"
  by (simp add: get_result_def)

text \<open>
  Claim C1 at a concrete input: one task was submitted and \<open>get_result\<close> is called
  without a task. The call raises AttributeError; it neither returns a finished task
  nor raises an exception of the module.
\<close>

theorem get_result_without_task_fails:
  "fst (get_result
          (snd (submit_task (PyMW_Master_init False :: nat PyMW_Master)
                  (ExeString ''worker.py'') (Some 1) None None))
          None True)
     = Raises (AttributeError ''NoneType object has no attribute is_task_finished'')"
  by (simp add: get_result_def submit_task_def PyMW_Task_init_def PyMW_Master_init_def
      SyncList_len_def SyncList_append_def SyncList_init_def Let_def)

text \<open>
  Claim C4, as the code has it. A task that is not in the registry makes \<open>get_result\<close>
  raise \<open>TaskException\<close> with the text "Task has not been submitted"; on an empty
  registry a call without a task raises \<open>TaskException\<close> with the text "No tasks yet
  submitted", and a call with a task raises the former. The master is left unchanged.
  \<open>TaskException\<close> is the class of task failures; there is no other class for these.
\<close>

theorem get_result_unsubmitted:
  "(\<not> SyncList_contains (submitted_tasks m) t \<longrightarrow>
      get_result m (Some t) wait = (Raises (TaskException ''Task has not been submitted''), m))
   \<and> (SyncList_len (submitted_tasks m) = 0 \<longrightarrow>
      get_result m None wait = (Raises (TaskException ''No tasks yet submitted''), m)
      \<and> get_result m (Some t) wait
          = (Raises (TaskException ''Task has not been submitted''), m))
   \<and> is_TaskException (TaskException ''Task has not been submitted'')
   \<and> is_TaskException (TaskException ''No tasks yet submitted'')"
proof -
  have "SyncList_len (submitted_tasks m) = 0 \<Longrightarrow> \<not> SyncList_contains (submitted_tasks m) t"
    by (auto dest: contains_len)
  then show ?thesis
    by (auto simp: get_result_def)
qed

theorem get_result_unsubmitted_witness:
  "\<not> SyncList_contains (submitted_tasks (PyMW_Master_init False :: nat PyMW_Master)) 0
   \<and> SyncList_len (submitted_tasks (PyMW_Master_init False :: nat PyMW_Master)) = 0
   \<and> get_result (PyMW_Master_init False :: nat PyMW_Master) None True
       = (Raises (TaskException ''No tasks yet submitted''), PyMW_Master_init False)
   \<and> get_result (PyMW_Master_init False :: nat PyMW_Master) (Some 0) True
       = (Raises (TaskException ''Task has not been submitted''), PyMW_Master_init False)"
  using get_result_unsubmitted [where m = "PyMW_Master_init False :: nat PyMW_Master"
      and t = 0 and wait = True]
  by (simp add: PyMW_Master_init_def SyncList_init_def SyncList_len_def SyncList_contains_def)

text \<open>
  The claim as the specification words it asks for an error of a kind of its own,
  which is not the kind of a failed task. On a master with no task, the exception
  raised for an unknown task, and the one raised for an omitted task, is an object of
  the class \<open>TaskException\<close>, the class the module has for task failures.
\<close>

theorem get_result_unsubmitted_counterexample:
  "get_result (PyMW_Master_init False :: nat PyMW_Master) (Some 0) True
     = (Raises (TaskException ''Task has not been submitted''), PyMW_Master_init False)
   \<and> is_TaskException (TaskException ''Task has not been submitted'')
   \<and> get_result (PyMW_Master_init False :: nat PyMW_Master) None True
     = (Raises (TaskException ''No tasks yet submitted''), PyMW_Master_init False)
   \<and> is_TaskException (TaskException ''No tasks yet submitted'')"
  by (simp add: get_result_def PyMW_Master_init_def SyncList_init_def SyncList_contains_def
      SyncList_len_def)

lemma scheduler_exits: "Scheduler_scheduler (Scheduler_exit m) = Some ([], Scheduler_exit m)"
  by (subst Scheduler_scheduler.simps) (simp add: Scheduler_exit_def)

lemma scheduler_woken:
  "Scheduler_after_wait (Scheduler_exit m) = Some ([], m\<lparr>scheduler_finished := True\<rparr>)"
proof -
  have "SyncList_wait_pop (queued_tasks (Scheduler_exit m)) = Some (Popped None, queued_tasks m)"
    by (simp add: Scheduler_exit_def SyncList_wait_pop_def SyncList_append_def)
  moreover have "Scheduler_scheduler ((Scheduler_exit m)\<lparr>queued_tasks := queued_tasks m\<rparr>)
      = Some ([], m\<lparr>scheduler_finished := True\<rparr>)"
    by (subst Scheduler_scheduler.simps) (simp add: Scheduler_exit_def)
  ultimately show ?thesis by (simp add: Scheduler_after_wait_def)
qed

text \<open>
  Claim C7. A task of the registry whose finish event is set and whose error is \<open>e\<close>:
  \<open>get_result\<close> on it raises \<open>e\<close>, whatever \<open>wait\<close> is, and has run the scheduler's
  \<open>_exit\<close> before: the flag \<open>_finished\<close> is set and a \<open>None\<close> is appended to the queue,
  nothing else changes. That ends the scheduler's loop without another task started:
  at its test when the thread is there, and through the \<open>None\<close>, which it pops first,
  when the thread waits in \<open>wait_pop\<close>. The error is raised in \<open>get_result\<close> and not by
  the callback: the call of \<open>task_finished\<close> that recorded \<open>e\<close> returned.
\<close>

theorem get_result_reraises:
  assumes "SyncList_contains (submitted_tasks m) t"
    and "finish_event (tasks m t)"
    and "error (tasks m t) = Some e"
  shows "get_result m (Some t) wait = (Raises e, Scheduler_exit m)
    \<and> scheduler_finished (Scheduler_exit m)
    \<and> queued_tasks (Scheduler_exit m) = SyncList_append None (queued_tasks m)
    \<and> Scheduler_exit m
        = m\<lparr>scheduler_finished := True,
            queued_tasks := SyncList_append None (queued_tasks m)\<rparr>
    \<and> Scheduler_scheduler (Scheduler_exit m) = Some ([], Scheduler_exit m)
    \<and> Scheduler_after_wait (Scheduler_exit m) = Some ([], m\<lparr>scheduler_finished := True\<rparr>)
    \<and> fst (task_finished (Some e) ReadIOError t0) = Returns ()
    \<and> fst (task_finished (Some e) (ReadValue v) t0) = Returns ()
    \<and> error (snd (task_finished (Some e) ReadIOError t0)) = Some e
    \<and> finish_event (snd (task_finished (Some e) ReadIOError t0))"
proof -
  have "SyncList_len (submitted_tasks m) \<noteq> 0"
    using assms(1) by (rule contains_len)
  then have "get_result m (Some t) wait = (Raises e, Scheduler_exit m)"
    using assms by (simp add: get_result_def is_task_finished_def)
  then show ?thesis
    using scheduler_exits [of m] scheduler_woken [of m]
    by (simp add: Scheduler_exit_def task_finished_def Let_def)
qed

theorem get_result_reraises_witness:
  "let m0 = snd (submit_task (PyMW_Master_init False :: nat PyMW_Master)
                   (ExeString ''worker.py'') (Some 1) None None);
       m = m0\<lparr>tasks := (tasks m0)
              (0 := snd (task_finished (Some (Exception ''failed'')) ReadIOError (tasks m0 0)))\<rparr>
   in SyncList_contains (submitted_tasks m) 0
      \<and> finish_event (tasks m 0)
      \<and> error (tasks m 0) = Some (Exception ''failed'')
      \<and> get_result m (Some 0) True = (Raises (Exception ''failed''), Scheduler_exit m)
      \<and> scheduler_finished (Scheduler_exit m)
      \<and> lst (queued_tasks (Scheduler_exit m)) = [Some 0, None]"
  using get_result_reraises [where m = "(snd (submit_task (PyMW_Master_init False :: nat PyMW_Master)
                   (ExeString ''worker.py'') (Some 1) None None))\<lparr>tasks :=
            (tasks (snd (submit_task (PyMW_Master_init False :: nat PyMW_Master)
                   (ExeString ''worker.py'') (Some 1) None None)))
              (0 := snd (task_finished (Some (Exception ''failed'')) ReadIOError
                 (tasks (snd (submit_task (PyMW_Master_init False :: nat PyMW_Master)
                   (ExeString ''worker.py'') (Some 1) None None)) 0)))\<rparr>"
      and t = 0 and e = "Exception ''failed''" and wait = True]
  by (simp add: submit_task_def PyMW_Task_init_def PyMW_Master_init_def task_finished_def
      SyncList_contains_def SyncList_append_def SyncList_init_def Scheduler_exit_def Let_def)

section \<open>Decimal digits\<close>

lemma digit_char_cases:
  "d < 10 \<Longrightarrow> d = 0 \<or> d = 1 \<or> d = 2 \<or> d = 3 \<or> d = 4 \<or> d = 5 \<or> d = 6 \<or> d = 7 \<or> d = 8 \<or> d = (9::nat)"
  by arith

lemma digit_char_simps:
  "digit_char 0 = CHR ''0''" "digit_char 1 = CHR ''1''" "digit_char 2 = CHR ''2''"
  "digit_char 3 = CHR ''3''" "digit_char 4 = CHR ''4''" "digit_char 5 = CHR ''5''"
  "digit_char 6 = CHR ''6''" "digit_char 7 = CHR ''7''" "digit_char 8 = CHR ''8''"
  "digit_char 9 = CHR ''9''"
  by (simp_all add: digit_char_def numeral_nat)

lemma digit_char_Suc_0: "digit_char (Suc 0) = CHR ''1''"
  by (simp add: digit_char_def)

lemma digit_char_not_underscore: "d < 10 \<Longrightarrow> digit_char d \<noteq> CHR ''_''"
  using digit_char_cases [of d] by (auto simp: digit_char_simps digit_char_Suc_0)

lemma digit_char_inj:
  assumes "d < 10" and "e < 10" and "digit_char d = digit_char e"
  shows "d = e"
proof -
  note d = digit_char_cases [OF assms(1)]
  note e = digit_char_cases [OF assms(2)]
  from d e assms(3) show ?thesis
    by (elim disjE) (simp_all add: digit_char_simps digit_char_Suc_0)
qed

lemma str_nat_no_underscore: "CHR ''_'' \<notin> set (str_nat n)"
proof (induction n rule: str_nat.induct)
  case (1 n)
  show ?case
  proof (cases "n < 10")
    case True
    then show ?thesis
      using digit_char_not_underscore [of n] by (subst str_nat.simps) auto
  next
    case False
    have "n mod 10 < 10" by simp
    then show ?thesis
      using False 1 digit_char_not_underscore [of "n mod 10"]
      by (subst str_nat.simps) auto
  qed
qed

lemma str_nat_nonempty: "str_nat n \<noteq> []"
  by (subst str_nat.simps) simp

lemma str_nat_length: "n \<ge> 10 \<Longrightarrow> length (str_nat n) \<ge> 2"
  using str_nat_nonempty [of "n div 10"]
  by (subst str_nat.simps) (cases "str_nat (n div 10)"; simp)

lemma str_nat_inj: "str_nat n = str_nat k \<Longrightarrow> n = k"
proof (induction n arbitrary: k rule: str_nat.induct)
  case (1 n)
  show ?case
  proof (cases "n < 10")
    case n: True
    show ?thesis
    proof (cases "k < 10")
      case True
      then show ?thesis
        using n "1.prems" digit_char_inj [of n k]
        by (simp add: str_nat.simps [of n] str_nat.simps [of k])
    next
      case False
      then have "length (str_nat k) \<ge> 2" using str_nat_length [of k] by simp
      moreover have "length (str_nat n) = 1" using n by (simp add: str_nat.simps [of n])
      ultimately show ?thesis using "1.prems" by simp
    qed
  next
    case n: False
    show ?thesis
    proof (cases "k < 10")
      case True
      have "length (str_nat n) \<ge> 2" using n str_nat_length [of n] by simp
      moreover have "length (str_nat k) = 1" using True by (simp add: str_nat.simps [of k])
      ultimately show ?thesis using "1.prems" by simp
    next
      case False
      have eq: "str_nat (n div 10) @ [digit_char (n mod 10)]
          = str_nat (k div 10) @ [digit_char (k mod 10)]"
        using n False "1.prems" by (simp add: str_nat.simps [of n] str_nat.simps [of k])
      then have a: "str_nat (n div 10) = str_nat (k div 10)"
        and b: "digit_char (n mod 10) = digit_char (k mod 10)"
        by simp_all
      have "n div 10 = k div 10" using "1.IH" [OF n a] .
      moreover have "n mod 10 = k mod 10"
        using b digit_char_inj [of "n mod 10" "k mod 10"] by simp
      ultimately show ?thesis
        by (metis div_mult_mod_eq)
    qed
  qed
qed

lemma split_last_underscore:
  assumes "s @ CHR ''_'' # d = s' @ CHR ''_'' # d'"
    and "CHR ''_'' \<notin> set d" and "CHR ''_'' \<notin> set d'"
  shows "d = d'"
proof -
  have "rev d @ CHR ''_'' # rev s = rev d' @ CHR ''_'' # rev s'"
    using arg_cong [OF assms(1), of rev] by simp
  then have "takeWhile (\<lambda>c. c \<noteq> CHR ''_'') (rev d @ CHR ''_'' # rev s)
      = takeWhile (\<lambda>c. c \<noteq> CHR ''_'') (rev d' @ CHR ''_'' # rev s')"
    by simp
  moreover have "takeWhile (\<lambda>c. c \<noteq> CHR ''_'') (rev d @ CHR ''_'' # rev s) = rev d"
    using assms(2) by (subst takeWhile_append2) auto
  moreover have "takeWhile (\<lambda>c. c \<noteq> CHR ''_'') (rev d' @ CHR ''_'' # rev s') = rev d'"
    using assms(3) by (subst takeWhile_append2) auto
  ultimately have "rev d = rev d'" by simp
  then show ?thesis by simp
qed

lemma auto_name_inj:
  "s @ ''_'' @ str_nat j = s' @ ''_'' @ str_nat k \<Longrightarrow> j = k"
  using split_last_underscore [of s "str_nat j" s' "str_nat k"] str_nat_no_underscore str_nat_inj
  by auto

section \<open>Properties of submit_task\<close>

lemma find_submitted_drop:
  "find_submitted store reg name pos
     = List.find (\<lambda>t. task_name (store t) = name) (drop pos (lst reg))"
proof (induction store reg name pos rule: find_submitted.induct)
  case (1 store reg name pos)
  show ?case
  proof (cases "pos \<ge> SyncList_len reg")
    case True
    then show ?thesis
      by (subst find_submitted.simps) (simp add: SyncList_len_def)
  next
    case False
    then have lt: "pos < length (lst reg)" by (simp add: SyncList_len_def)
    then have d: "drop pos (lst reg) = lst reg ! pos # drop (Suc pos) (lst reg)"
      by (simp add: Cons_nth_drop_Suc)
    show ?thesis
      using False 1 by (subst find_submitted.simps) (simp add: d Let_def)
  qed
qed

lemma find_submitted_find:
  "find_submitted store reg name 0 = List.find (\<lambda>t. task_name (store t) = name) (lst reg)"
  by (simp add: find_submitted_drop)

lemma get_result_registry:
  "submitted_tasks (snd (get_result m task wait)) = submitted_tasks m
   \<and> tasks (snd (get_result m task wait)) = tasks m
   \<and> next_task (snd (get_result m task wait)) = next_task m
   \<and> use_state_records (snd (get_result m task wait)) = use_state_records m
   \<and> cur_task_num (snd (get_result m task wait)) = cur_task_num m"
  by (simp add: get_result_def Scheduler_exit_def split: option.split outcome.split bool.split)

lemma submit_task_use_state_records:
  "use_state_records (snd (submit_task m exe input name write_err)) = use_state_records m"
  by (simp add: submit_task_def Let_def split: option.split list.split sum.split prod.split)

lemma perform_use_state_records: "use_state_records (perform m c) = use_state_records m"
  by (cases c) (simp_all add: get_result_registry submit_task_use_state_records)

lemma run_use_state_records: "use_state_records (run calls m) = use_state_records m"
  unfolding run_def by (induction calls arbitrary: m) (simp_all add: perform_use_state_records)

lemma chosen_name_nonempty: "chosen_name m exe name \<noteq> []"
  by (simp add: chosen_name_def split: option.split list.split)

lemma after_naming_fields:
  "submitted_tasks (after_naming m name) = submitted_tasks m"
  "queued_tasks (after_naming m name) = queued_tasks m"
  "tasks (after_naming m name) = tasks m"
  "next_task (after_naming m name) = next_task m"
  "use_state_records (after_naming m name) = use_state_records m"
  "task_dir_name (after_naming m name) = task_dir_name m"
  by (simp_all add: after_naming_def split: option.split list.split)

lemma submit_task_alt:
  "submit_task m exe input name write_err =
     (case (if use_state_records m
            then List.find (\<lambda>t. task_name (tasks m t) = chosen_name m exe name)
                   (lst (submitted_tasks m))
            else None) of
        Some task \<Rightarrow> (Returns task, after_naming m name)
      | None \<Rightarrow>
         (case PyMW_Task_init (chosen_name m exe name) exe input (task_dir_name m) write_err of
            Inl e \<Rightarrow> (Raises e, after_naming m name)
          | Inr new_task \<Rightarrow>
              (Returns (next_task m),
               (after_naming m name)\<lparr>tasks := (tasks m)(next_task m := new_task),
                  next_task := next_task m + 1,
                  submitted_tasks := SyncList_append (next_task m) (submitted_tasks m),
                  queued_tasks := SyncList_append (Some (next_task m)) (queued_tasks m)\<rparr>)))"
proof -
  have pair: "(case name of Some (c # cs) \<Rightarrow> (c # cs, m)
      | _ \<Rightarrow> (str_executable exe @ ''_'' @ str_nat (cur_task_num m),
               m\<lparr>cur_task_num := cur_task_num m + 1\<rparr>))
      = (chosen_name m exe name, after_naming m name)"
    by (simp add: chosen_name_def after_naming_def split: option.split list.split)
  show ?thesis
    unfolding submit_task_def pair
    by (simp add: after_naming_fields find_submitted_find Let_def
        split: option.split sum.split)
qed

lemma cur_task_num_after_naming:
  "cur_task_num (after_naming m name)
     = (if name = None \<or> name = Some [] then cur_task_num m + 1 else cur_task_num m)"
  by (simp add: after_naming_def split: option.split list.split)

lemma submit_task_cur:
  "cur_task_num (snd (submit_task m exe input name write_err))
     = (if name = None \<or> name = Some [] then cur_task_num m + 1 else cur_task_num m)"
  unfolding submit_task_alt
  by (simp add: cur_task_num_after_naming split: option.split sum.split)

lemma chosen_name_auto:
  "name = None \<or> name = Some [] \<Longrightarrow>
   chosen_name m exe name = str_executable exe @ ''_'' @ str_nat (cur_task_num m)"
  by (auto simp: chosen_name_def)

lemma submit_task_names:
  fixes m :: "'v PyMW_Master" and exe input name write_err
  defines "m' \<equiv> snd (submit_task m exe input name write_err)"
  shows "(submitted_tasks m' = submitted_tasks m \<and> tasks m' = tasks m
            \<and> next_task m' = next_task m)
       \<or> (submitted_tasks m' = SyncList_append (next_task m) (submitted_tasks m)
            \<and> (\<exists>new. tasks m' = (tasks m)(next_task m := new)
                  \<and> task_name new = chosen_name m exe name)
            \<and> next_task m' = next_task m + 1
            \<and> (use_state_records m \<longrightarrow>
                  chosen_name m exe name \<notin> set (submitted_names m)))"
proof -
  let ?nm = "chosen_name m exe name"
  let ?found = "if use_state_records m
      then List.find (\<lambda>t. task_name (tasks m t) = ?nm) (lst (submitted_tasks m)) else None"
  have nm_init: "PyMW_Task_init ?nm exe input d write_err = Inr new \<Longrightarrow> task_name new = ?nm"
    for d new
    by (auto simp: PyMW_Task_init_def split: executable.splits option.splits)
  show ?thesis
  proof (cases ?found)
    case (Some task)
    then show ?thesis
      unfolding m'_def submit_task_alt by (simp add: after_naming_fields)
  next
    case None
    then have fresh: "use_state_records m \<longrightarrow> ?nm \<notin> set (submitted_names m)"
      by (auto simp: submitted_names_def find_None_iff split: if_splits)
    show ?thesis
    proof (cases "PyMW_Task_init ?nm exe input (task_dir_name m) write_err")
      case (Inl e)
      then show ?thesis
        unfolding m'_def submit_task_alt using None by (simp add: after_naming_fields)
    next
      case (Inr new)
      then show ?thesis
        unfolding m'_def submit_task_alt using None fresh nm_init [OF Inr]
        by (auto simp: after_naming_fields)
    qed
  qed
qed

lemma submit_task_cases:
  fixes m :: "'v PyMW_Master" and exe input name write_err
  defines "m' \<equiv> snd (submit_task m exe input name write_err)"
  obtains (same) "submitted_tasks m' = submitted_tasks m" "tasks m' = tasks m"
      "next_task m' = next_task m"
    | (new) new where "submitted_tasks m' = SyncList_append (next_task m) (submitted_tasks m)"
      "tasks m' = (tasks m)(next_task m := new)" "task_name new = chosen_name m exe name"
      "next_task m' = next_task m + 1"
      "use_state_records m \<longrightarrow> chosen_name m exe name \<notin> set (submitted_names m)"
  using submit_task_names [of m exe input name write_err] unfolding m'_def by blast

lemma names_after_new:
  assumes "registry_ok m"
    and "submitted_tasks m' = SyncList_append (next_task m) (submitted_tasks m)"
    and "tasks m' = (tasks m)(next_task m := new)"
  shows "submitted_names m' = submitted_names m @ [task_name new]"
proof -
  have "next_task m \<notin> set (lst (submitted_tasks m))"
    using assms(1) by (auto simp: registry_ok_def)
  then have "map (\<lambda>t. task_name (((tasks m)(next_task m := new)) t)) (lst (submitted_tasks m))
      = submitted_names m"
    by (auto simp: submitted_names_def)
  then show ?thesis
    using assms(2,3) by (simp add: submitted_names_def SyncList_append_def)
qed

lemma submit_task_keeps_registry_ok:
  assumes "registry_ok m"
    and "use_state_records m \<or> chosen_name m exe name \<notin> set (submitted_names m)"
  shows "registry_ok (snd (submit_task m exe input name write_err))"
proof (cases rule: submit_task_cases [of m exe input name write_err])
  case same
  then show ?thesis using assms(1) by (simp add: registry_ok_def submitted_names_def)
next
  case (new new)
  have names: "submitted_names (snd (submit_task m exe input name write_err))
      = submitted_names m @ [chosen_name m exe name]"
    using names_after_new [OF assms(1) new(1,2)] new(3) by simp
  have "chosen_name m exe name \<notin> set (submitted_names m)"
    using assms(2) new(5) by blast
  then show ?thesis
    using assms(1) new(1,4) names chosen_name_nonempty [of m exe name]
    by (auto simp: registry_ok_def SyncList_append_def)
qed

lemma auto_named_fresh:
  assumes "auto_named m" and "name = None \<or> name = Some []"
  shows "chosen_name m exe name \<notin> set (submitted_names m)"
proof
  assume "chosen_name m exe name \<in> set (submitted_names m)"
  then obtain s k where "chosen_name m exe name = s @ ''_'' @ str_nat k" and k: "k < cur_task_num m"
    using assms(1) unfolding auto_named_def by blast
  then have "str_executable exe @ ''_'' @ str_nat (cur_task_num m) = s @ ''_'' @ str_nat k"
    using chosen_name_auto [OF assms(2), of m exe] by simp
  then have "cur_task_num m = k" by (rule auto_name_inj)
  then show False using k by simp
qed

lemma submit_task_keeps_auto_named:
  assumes "registry_ok m" and "auto_named m" and "name = None \<or> name = Some []"
  shows "auto_named (snd (submit_task m exe input name write_err))"
proof -
  let ?m' = "snd (submit_task m exe input name write_err)"
  have cur: "cur_task_num ?m' = cur_task_num m + 1"
    using assms(3) by (simp add: submit_task_cur)
  have old: "\<exists>s k. n = s @ ''_'' @ str_nat k \<and> k < cur_task_num ?m'"
    if "n \<in> set (submitted_names m)" for n
    using that assms(2) cur unfolding auto_named_def by (metis less_SucI Suc_eq_plus1)
  show ?thesis
  proof (cases rule: submit_task_cases [of m exe input name write_err])
    case same
    then have "submitted_names ?m' = submitted_names m" by (simp add: submitted_names_def)
    then show ?thesis using old by (simp add: auto_named_def)
  next
    case (new new)
    have names: "submitted_names ?m' = submitted_names m @ [chosen_name m exe name]"
      using names_after_new [OF assms(1) new(1,2)] new(3) by simp
    have "\<exists>s k. chosen_name m exe name = s @ ''_'' @ str_nat k \<and> k < cur_task_num ?m'"
      using chosen_name_auto [OF assms(3), of m exe] cur by (metis lessI Suc_eq_plus1)
    then show ?thesis
      using old names unfolding auto_named_def by auto
  qed
qed

lemma perform_names_ok:
  assumes "names_ok m" and "use_state_records m \<or> unnamed c"
  shows "names_ok (perform m c)"
proof (cases c)
  case (Submit exe input name write_err)
  show ?thesis
  proof (cases "use_state_records m")
    case True
    then show ?thesis
      using assms(1) Submit
      by (simp add: names_ok_def submit_task_keeps_registry_ok submit_task_use_state_records)
  next
    case False
    then have un: "name = None \<or> name = Some []" and an: "auto_named m" and ok: "registry_ok m"
      using assms Submit by (simp_all add: unnamed_def names_ok_def)
    have "registry_ok (snd (submit_task m exe input name write_err))"
      using ok auto_named_fresh [OF an un] by (simp add: submit_task_keeps_registry_ok)
    moreover have "auto_named (snd (submit_task m exe input name write_err))"
      using ok an un by (rule submit_task_keeps_auto_named)
    ultimately show ?thesis using Submit by (simp add: names_ok_def)
  qed
next
  case (GetResult task wait)
  then show ?thesis
    using assms(1)
    by (simp add: names_ok_def registry_ok_def auto_named_def submitted_names_def
        get_result_registry)
next
  case (TaskFinished t task_err rd)
  have "task_name (((tasks m)(t := snd (task_finished task_err rd (tasks m t)))) x)
      = task_name (tasks m x)" for x
    by (simp add: task_finished_name)
  then show ?thesis
    using assms(1) TaskFinished
    by (simp add: names_ok_def registry_ok_def auto_named_def submitted_names_def)
qed

lemma run_names_ok:
  "names_ok m \<Longrightarrow> use_state_records m \<or> (\<forall>c \<in> set calls. unnamed c) \<Longrightarrow>
   names_ok (run calls m)"
  unfolding run_def
proof (induction calls arbitrary: m)
  case Nil
  then show ?case by simp
next
  case (Cons c calls)
  have "names_ok (perform m c)"
    using Cons.prems by (auto intro: perform_names_ok)
  moreover have "use_state_records (perform m c) \<or> (\<forall>c \<in> set calls. unnamed c)"
    using Cons.prems(2) by (auto simp: perform_use_state_records)
  ultimately show ?case using Cons.IH by simp
qed

lemma init_names_ok: "names_ok (PyMW_Master_init b)"
  by (simp add: names_ok_def registry_ok_def auto_named_def submitted_names_def
      PyMW_Master_init_def SyncList_init_def)

lemma find_distinct:
  "distinct (map f xs) \<Longrightarrow> t \<in> set xs \<Longrightarrow> List.find (\<lambda>x. f x = f t) xs = Some t"
  by (induction xs) (auto simp: image_iff)

text \<open>
  Claim C8, as the code has it. The registry is searched for the name only when
  durable state tracking is on. After any run of calls on a master that was made with
  tracking, the names in the registry are pairwise distinct; so they are on a master
  made without tracking as long as no call passes a name, since the generated names
  end in the value of a counter that only grows.
\<close>

theorem submitted_names_distinct:
  "distinct (submitted_names (run calls (PyMW_Master_init True)))
   \<and> ((\<forall>c \<in> set calls. unnamed c) \<longrightarrow>
        distinct (submitted_names (run calls (PyMW_Master_init False))))"
proof -
  have "names_ok (run calls (PyMW_Master_init True :: 'a PyMW_Master))"
    by (rule run_names_ok [OF init_names_ok]) (simp add: PyMW_Master_init_def)
  moreover have "names_ok (run calls (PyMW_Master_init False :: 'a PyMW_Master))"
    if "\<forall>c \<in> set calls. unnamed c"
    by (rule run_names_ok [OF init_names_ok]) (simp add: that)
  ultimately show ?thesis
    by (simp add: names_ok_def registry_ok_def)
qed

theorem submitted_names_distinct_witness:
  "unnamed (Submit (ExeString ''worker.py'') (Some (1 :: nat)) None None)
   \<and> unnamed (Submit (ExeString ''worker.py'') (Some (2 :: nat)) (Some []) None)
   \<and> distinct (submitted_names (run
        [Submit (ExeString ''worker.py'') (Some (1 :: nat)) None None,
         Submit (ExeString ''worker.py'') (Some 2) (Some []) None]
        (PyMW_Master_init False)))
   \<and> distinct (submitted_names (run
        [Submit (ExeString ''worker.py'') (Some (1 :: nat)) (Some ''job'') None,
         Submit (ExeString ''worker.py'') (Some 2) (Some ''job'') None]
        (PyMW_Master_init True)))"
  using submitted_names_distinct [where calls =
        "[Submit (ExeString ''worker.py'') (Some (1 :: nat)) None None,
          Submit (ExeString ''worker.py'') (Some 2) (Some []) None]"]
    submitted_names_distinct [where calls =
        "[Submit (ExeString ''worker.py'') (Some (1 :: nat)) (Some ''job'') None,
          Submit (ExeString ''worker.py'') (Some 2) (Some ''job'') None]"]
  by (simp add: unnamed_def)

text \<open>
  The claim as the specification words it, for every master: without durable state
  tracking two calls that pass the same name put two tasks of that name into the
  registry.
\<close>

theorem submitted_names_distinct_counterexample:
  "submitted_names (run
      [Submit (ExeString ''worker.py'') (Some (1 :: nat)) (Some ''job'') None,
       Submit (ExeString ''worker.py'') (Some 2) (Some ''job'') None]
      (PyMW_Master_init False)) = [''job'', ''job'']
   \<and> \<not> distinct (submitted_names (run
      [Submit (ExeString ''worker.py'') (Some (1 :: nat)) (Some ''job'') None,
       Submit (ExeString ''worker.py'') (Some 2) (Some ''job'') None]
      (PyMW_Master_init False)))"
  by (simp add: run_def submit_task_alt chosen_name_def after_naming_def submitted_names_def
      PyMW_Task_init_def PyMW_Master_init_def SyncList_append_def SyncList_init_def)

text \<open>
  Claim C3. On a master made with durable state tracking, after any run of calls, a
  call of \<open>submit_task\<close> that passes the name of a task \<open>t\<close> of the registry returns
  \<open>t\<close> itself and leaves the master as it was: no task is made, the registry and the
  queue are not touched, the counter does not move.
\<close>

theorem submit_task_again:
  assumes "SyncList_contains (submitted_tasks (run calls (PyMW_Master_init True))) t"
  shows "submit_task (run calls (PyMW_Master_init True)) exe input
           (Some (task_name (tasks (run calls (PyMW_Master_init True)) t))) write_err
         = (Returns t, run calls (PyMW_Master_init True))"
proof -
  define m where "m = run calls (PyMW_Master_init True :: 'a PyMW_Master)"
  have t: "t \<in> set (lst (submitted_tasks m))"
    using assms by (simp add: m_def contains_iff)
  have rec0: "use_state_records (PyMW_Master_init True :: 'a PyMW_Master)"
    by (simp add: PyMW_Master_init_def)
  have rec: "use_state_records m"
    unfolding m_def using rec0 by (simp only: run_use_state_records)
  have "names_ok m"
    unfolding m_def using rec0 by (intro run_names_ok init_names_ok disjI1)
  then have ok: "registry_ok m" by (simp add: names_ok_def)
  have ne: "task_name (tasks m t) \<noteq> []"
    using ok t by (force simp: registry_ok_def submitted_names_def image_iff)
  then obtain c cs where n: "task_name (tasks m t) = c # cs"
    by (cases "task_name (tasks m t)") auto
  have "List.find (\<lambda>x. task_name (tasks m x) = task_name (tasks m t)) (lst (submitted_tasks m))
      = Some t"
    using ok t find_distinct [of "\<lambda>x. task_name (tasks m x)" "lst (submitted_tasks m)" t]
    by (simp add: registry_ok_def submitted_names_def)
  then have "submit_task m exe input (Some (task_name (tasks m t))) write_err = (Returns t, m)"
    using rec n by (simp add: submit_task_def find_submitted_find)
  then show ?thesis by (simp add: m_def)
qed

theorem submit_task_again_witness:
  "SyncList_contains (submitted_tasks (run
        [Submit (ExeString ''worker.py'') (Some (1 :: nat)) (Some ''job'') None]
        (PyMW_Master_init True))) 0
   \<and> task_name (tasks (run
        [Submit (ExeString ''worker.py'') (Some (1 :: nat)) (Some ''job'') None]
        (PyMW_Master_init True)) 0) = ''job''
   \<and> submit_task (run
        [Submit (ExeString ''worker.py'') (Some (1 :: nat)) (Some ''job'') None]
        (PyMW_Master_init True)) (ExeString ''other.py'') (Some 7) (Some ''job'') None
      = (Returns 0, run
        [Submit (ExeString ''worker.py'') (Some (1 :: nat)) (Some ''job'') None]
        (PyMW_Master_init True))"
proof -
  have c: "SyncList_contains (submitted_tasks (run
        [Submit (ExeString ''worker.py'') (Some (1 :: nat)) (Some ''job'') None]
        (PyMW_Master_init True))) 0"
    and n: "task_name (tasks (run
        [Submit (ExeString ''worker.py'') (Some (1 :: nat)) (Some ''job'') None]
        (PyMW_Master_init True)) 0) = ''job''"
    by (simp_all add: run_def submit_task_alt chosen_name_def after_naming_def
        SyncList_contains_def PyMW_Task_init_def PyMW_Master_init_def SyncList_append_def
        SyncList_init_def)
  show ?thesis
    using c n submit_task_again [OF c, of "ExeString ''other.py''" "Some 7" None]
    by simp
qed

section \<open>Properties of the threads on one list\<close>

lemma sum_list_map_update:
  fixes f :: "'b \<Rightarrow> 'c :: comm_monoid_add"
  shows "i < length ts \<Longrightarrow>
    sum_list (map f (ts[i := t])) + f (ts ! i) = sum_list (map f ts) + f t"
proof (induction ts arbitrary: i)
  case Nil
  then show ?case by simp
next
  case (Cons a ts)
  show ?case
  proof (cases i)
    case 0
    then show ?thesis by (simp add: ac_simps)
  next
    case (Suc j)
    then have "j < length ts" using Cons.prems by simp
    from Cons.IH [OF this] show ?thesis
      using Suc by (simp add: ac_simps)
  qed
qed

lemma list_ex_update:
  "i < length ts \<Longrightarrow> \<not> list_ex P ts \<Longrightarrow> \<not> P t \<Longrightarrow> \<not> list_ex P (ts[i := t])"
  by (auto simp: list_ex_iff dest!: set_update_subset_insert [THEN subsetD])

lemma holds_sem_le: "i < length ts \<Longrightarrow> holds_sem (ts ! i) \<le> sum_list (map holds_sem ts)"
  by (simp add: member_le_sum_list)

lemma thread_step_index: "thread_step i c = Some c' \<Longrightarrow> i < length (threads c)"
  by (simp add: thread_step_def split: if_splits)

lemma thread_step_inv:
  assumes step: "thread_step i c = Some c'" and inv: "threads_inv c"
  shows "threads_inv c'"
proof -
  have i: "i < length (threads c)" using step by (rule thread_step_index)
  note h = sum_list_map_update [OF i, of holds_sem]
  note p = sum_list_map_update [OF i, of popped_by]
  note a = sum_list_map_update [OF i, of appended_by]
  note ex = list_ex_update [OF i]
  have len: "length (lst (queue c)) = sem (queue c) + sum_list (map holds_sem (threads c))"
    and ms: "mset (lst (queue c)) + sum_list (map popped_by (threads c))
         = sum_list (map appended_by (threads c))"
    and nf: "\<not> list_ex pop_failed (threads c)"
    using inv by (simp_all add: threads_inv_def)
  show ?thesis
  proof (cases "threads c ! i")
    case (Append_lock x)
    then have c': "c' = c\<lparr>lock := True, threads := (threads c)[i := Append_list x]\<rparr>"
      using step i by (simp add: thread_step_def split: if_splits)
    show ?thesis
      unfolding threads_inv_def c'
      using len ms nf h [of "Append_list x"] p [of "Append_list x"] a [of "Append_list x"]
        ex [of pop_failed "Append_list x"] Append_lock
      by simp
  next
    case (Append_list x)
    then have c': "c' = c\<lparr>queue := (queue c)\<lparr>lst := lst (queue c) @ [x]\<rparr>,
                     threads := (threads c)[i := Append_sem x]\<rparr>"
      using step i by (simp add: thread_step_def)
    show ?thesis
      unfolding threads_inv_def c'
      using len ms nf h [of "Append_sem x"] p [of "Append_sem x"] a [of "Append_sem x"]
        ex [of pop_failed "Append_sem x"] Append_list
      by simp
  next
    case (Append_sem x)
    then have c': "c' = c\<lparr>queue := (queue c)\<lparr>sem := sem (queue c) + 1\<rparr>,
                     threads := (threads c)[i := Append_unlock x]\<rparr>"
      using step i by (simp add: thread_step_def)
    show ?thesis
      unfolding threads_inv_def c'
      using len ms nf h [of "Append_unlock x"] p [of "Append_unlock x"] a [of "Append_unlock x"]
        ex [of pop_failed "Append_unlock x"] Append_sem
      by simp
  next
    case (Append_unlock x)
    then have c': "c' = c\<lparr>lock := False, threads := (threads c)[i := Append_done x]\<rparr>"
      using step i by (simp add: thread_step_def)
    show ?thesis
      unfolding threads_inv_def c'
      using len ms nf h [of "Append_done x"] p [of "Append_done x"] a [of "Append_done x"]
        ex [of pop_failed "Append_done x"] Append_unlock
      by simp
  next
    case (Append_done x)
    then show ?thesis using step i by (simp add: thread_step_def)
  next
    case Pop_sem
    then have c': "c' = c\<lparr>queue := (queue c)\<lparr>sem := sem (queue c) - 1\<rparr>,
                          threads := (threads c)[i := Pop_lock]\<rparr>"
      and pos: "sem (queue c) \<noteq> 0"
      using step i by (simp_all add: thread_step_def split: if_splits)
    show ?thesis
      unfolding threads_inv_def c'
      using len ms nf pos h [of Pop_lock] p [of Pop_lock] a [of Pop_lock]
        ex [of pop_failed Pop_lock] Pop_sem
      by simp
  next
    case Pop_lock
    then have c': "c' = c\<lparr>lock := True, threads := (threads c)[i := Pop_list]\<rparr>"
      using step i by (simp add: thread_step_def split: if_splits)
    show ?thesis
      unfolding threads_inv_def c'
      using len ms nf h [of Pop_list] p [of Pop_list] a [of Pop_list]
        ex [of pop_failed Pop_list] Pop_lock
      by simp
  next
    case Pop_list
    have "1 \<le> sum_list (map holds_sem (threads c))"
      using holds_sem_le [OF i] Pop_list by simp
    then have "length (lst (queue c)) \<noteq> 0" using len by linarith
    then have "lst (queue c) \<noteq> []" by simp
    then obtain item rest where r: "rev (lst (queue c)) = item # rest"
      by (cases "rev (lst (queue c))") auto
    then have l: "lst (queue c) = rev rest @ [item]"
      by (metis rev_rev_ident rev.simps(2))
    have c': "c' = c\<lparr>queue := (queue c)\<lparr>lst := rev rest\<rparr>,
                          threads := (threads c)[i := Pop_unlock (Popped item)]\<rparr>"
      using step i Pop_list r by (simp add: thread_step_def)
    show ?thesis
      unfolding threads_inv_def c'
      using len ms nf l h [of "Pop_unlock (Popped item)"] p [of "Pop_unlock (Popped item)"]
        a [of "Pop_unlock (Popped item)"] ex [of pop_failed "Pop_unlock (Popped item)"] Pop_list
      by simp
  next
    case (Pop_unlock r)
    then have c': "c' = c\<lparr>lock := False, threads := (threads c)[i := Pop_done r]\<rparr>"
      using step i by (simp add: thread_step_def)
    have "\<not> pop_failed (threads c ! i)"
      using nf nth_mem [OF i] by (auto simp: list_ex_iff)
    then have nfr: "\<not> pop_failed (Pop_done r)"
      using Pop_unlock by (cases r) simp_all
    have "popped_by (Pop_done r) = popped_by (Pop_unlock r)" by (cases r) simp_all
    then show ?thesis
      unfolding threads_inv_def c'
      using len ms nf h [of "Pop_done r"] p [of "Pop_done r"] a [of "Pop_done r"]
        ex [of pop_failed "Pop_done r"] nfr Pop_unlock
      by simp
  next
    case (Pop_done r)
    then show ?thesis using step i by (simp add: thread_step_def)
  qed
qed

lemma run_threads_inv:
  "run_threads sched c = Some c' \<Longrightarrow> threads_inv c \<Longrightarrow> threads_inv c'"
proof (induction sched arbitrary: c)
  case Nil
  then show ?case by simp
next
  case (Cons i sched)
  then show ?case
    by (auto split: option.splits dest: thread_step_inv)
qed

lemma starting_sums:
  "list_all starting ts \<Longrightarrow>
     sum_list (map holds_sem ts) = 0 \<and> sum_list (map popped_by ts) = {#}
     \<and> sum_list (map appended_by ts) = {#} \<and> \<not> list_ex pop_failed ts"
proof (induction ts)
  case Nil
  then show ?case by simp
next
  case (Cons t ts)
  then show ?case by (cases t) simp_all
qed

lemma threads_init_inv: "list_all starting ts \<Longrightarrow> threads_inv (threads_init ts)"
  using starting_sums [of ts]
  by (simp add: threads_inv_def threads_init_def SyncList_init_def)

lemma in_sum_list_mset:
  fixes f :: "'b \<Rightarrow> 'c multiset"
  shows "t \<in> set ts \<Longrightarrow> x \<in># f t \<Longrightarrow> x \<in># sum_list (map f ts)"
  by (induction ts) auto

lemma appended_by_thread:
  "x \<in># sum_list (map appended_by ts) \<Longrightarrow>
   \<exists>t \<in> set ts. t = Append_sem x \<or> t = Append_unlock x \<or> t = Append_done x"
proof (induction ts)
  case Nil
  then show ?case by simp
next
  case (Cons t ts)
  then show ?case by (cases t) (auto split: if_splits)
qed

text \<open>
  Claim C10. Threads start at the first statement of \<open>append\<close> or of \<open>wait_pop\<close> on a
  fresh list and run in any order. In every state they reach: the count of the
  semaphore is at most the length of the list; while a thread of \<open>wait_pop\<close> stands
  after its acquire and before its pop the list is not empty, so no thread has gone
  through the \<open>except\<close> branch; and an item that \<open>wait_pop\<close> has returned is the item
  of a thread of \<open>append\<close> that has put it on the list.
\<close>

theorem wait_pop_never_fails:
  assumes "list_all starting ts" and "run_threads sched (threads_init ts) = Some c"
  shows "sem (queue c) \<le> length (lst (queue c))
    \<and> (\<forall>t \<in> set (threads c). t = Pop_lock \<or> t = Pop_list \<longrightarrow> lst (queue c) \<noteq> [])
    \<and> (\<forall>t \<in> set (threads c). t \<noteq> Pop_unlock PopFailed \<and> t \<noteq> Pop_done PopFailed)
    \<and> (\<forall>x. Pop_done (Popped x) \<in> set (threads c) \<longrightarrow>
          (\<exists>t \<in> set (threads c). t = Append_sem x \<or> t = Append_unlock x \<or> t = Append_done x))"
proof -
  have inv: "threads_inv c"
    using assms(2) threads_init_inv [OF assms(1)] by (rule run_threads_inv)
  then have len: "length (lst (queue c)) = sem (queue c) + sum_list (map holds_sem (threads c))"
    and ms: "mset (lst (queue c)) + sum_list (map popped_by (threads c))
         = sum_list (map appended_by (threads c))"
    and nf: "\<not> list_ex pop_failed (threads c)"
    by (simp_all add: threads_inv_def)
  have a: "sem (queue c) \<le> length (lst (queue c))" using len by simp
  have b: "lst (queue c) \<noteq> []" if "t \<in> set (threads c)" "t = Pop_lock \<or> t = Pop_list" for t
  proof -
    have "holds_sem t \<le> sum_list (map holds_sem (threads c))"
      using that(1) by (simp add: member_le_sum_list)
    moreover have "holds_sem t = 1" using that(2) by auto
    ultimately have "length (lst (queue c)) \<noteq> 0" using len by linarith
    then show ?thesis by simp
  qed
  have c: "t \<noteq> Pop_unlock PopFailed \<and> t \<noteq> Pop_done PopFailed" if "t \<in> set (threads c)" for t
    using nf that by (auto simp: list_ex_iff)
  have d: "\<exists>t \<in> set (threads c). t = Append_sem x \<or> t = Append_unlock x \<or> t = Append_done x"
    if "Pop_done (Popped x) \<in> set (threads c)" for x
  proof -
    have "x \<in># sum_list (map popped_by (threads c))"
      using that by (rule in_sum_list_mset) simp
    then have "x \<in># sum_list (map appended_by (threads c))"
      using ms by (metis union_iff)
    then show ?thesis by (rule appended_by_thread)
  qed
  show ?thesis using a b c d by blast
qed

theorem wait_pop_never_fails_witness:
  "list_all starting [Append_lock (7 :: nat), Pop_sem]
   \<and> run_threads [0, 0, 0, 1, 0, 1, 1, 1] (threads_init [Append_lock (7 :: nat), Pop_sem])
       = Some \<lparr>queue = \<lparr>sem = 0, lst = []\<rparr>, lock = False,
               threads = [Append_done 7, Pop_done (Popped 7)]\<rparr>
   \<and> Pop_done (Popped (7 :: nat)) \<in> set [Append_done 7, Pop_done (Popped 7)]
   \<and> Append_done (7 :: nat) \<in> set [Append_done 7, Pop_done (Popped 7)]"
proof -
  have s: "list_all starting [Append_lock (7 :: nat), Pop_sem]" by simp
  have r: "run_threads [0, 0, 0, 1, 0, 1, 1, 1] (threads_init [Append_lock (7 :: nat), Pop_sem])
       = Some \<lparr>queue = \<lparr>sem = 0, lst = []\<rparr>, lock = False,
               threads = [Append_done 7, Pop_done (Popped 7)]\<rparr>"
    by (simp add: thread_step_def threads_init_def SyncList_init_def)
  show ?thesis
    using s r wait_pop_never_fails [OF s r] by simp
qed

text \<open>
  The same for the items: once every thread has returned, each item given to
  \<open>append\<close> is on the list or was returned by a \<open>wait_pop\<close>, once; with as many
  threads of \<open>wait_pop\<close> as of \<open>append\<close> the list is empty again and the returned
  items are the appended ones. A thread that runs its method alone does what the
  functions \<open>SyncList_append\<close> and \<open>SyncList_wait_pop\<close> say.
\<close>

lemma thread_step_kind:
  assumes "thread_step i c = Some c'"
  shows "\<exists>t. threads c' = (threads c)[i := t] \<and> item_of t = item_of (threads c ! i)
           \<and> is_popper t = is_popper (threads c ! i)"
proof -
  have i: "i < length (threads c)" using assms by (rule thread_step_index)
  show ?thesis
    using assms i
    by (cases "threads c ! i")
      (auto simp: thread_step_def split: if_splits list.splits)
qed

lemma thread_step_items:
  assumes "thread_step i c = Some c'"
  shows "sum_list (map item_of (threads c')) = sum_list (map item_of (threads c))
       \<and> sum_list (map is_popper (threads c')) = sum_list (map is_popper (threads c))"
proof -
  have i: "i < length (threads c)" using assms by (rule thread_step_index)
  obtain t where t: "threads c' = (threads c)[i := t]" "item_of t = item_of (threads c ! i)"
      "is_popper t = is_popper (threads c ! i)"
    using thread_step_kind [OF assms] by blast
  show ?thesis
    using sum_list_map_update [OF i, of item_of t] sum_list_map_update [OF i, of is_popper t] t
    by simp
qed

lemma run_threads_items:
  "run_threads sched c = Some c' \<Longrightarrow>
     sum_list (map item_of (threads c')) = sum_list (map item_of (threads c))
     \<and> sum_list (map is_popper (threads c')) = sum_list (map is_popper (threads c))"
proof (induction sched arbitrary: c)
  case Nil
  then show ?case by simp
next
  case (Cons i sched)
  then show ?case
    by (auto split: option.splits dest: thread_step_items)
qed

lemma done_sums:
  "list_all thread_done ts \<Longrightarrow> \<not> list_ex pop_failed ts \<Longrightarrow>
     sum_list (map appended_by ts) = sum_list (map item_of ts)
     \<and> size (sum_list (map popped_by ts)) = sum_list (map is_popper ts)"
proof (induction ts)
  case Nil
  then show ?case by simp
next
  case (Cons t ts)
  show ?case
  proof (cases t)
    case (Pop_done r)
    then show ?thesis using Cons by (cases r) simp_all
  qed (use Cons in simp_all)
qed

lemma all_done_no_loss:
  assumes "list_all starting ts" and "run_threads sched (threads_init ts) = Some c"
    and "list_all thread_done (threads c)"
  shows "mset (lst (queue c)) + sum_list (map popped_by (threads c)) = sum_list (map item_of ts)"
    and "size (sum_list (map item_of ts)) = sum_list (map is_popper ts) \<Longrightarrow>
         lst (queue c) = [] \<and> sum_list (map popped_by (threads c)) = sum_list (map item_of ts)"
proof -
  have inv: "threads_inv c"
    using assms(2) threads_init_inv [OF assms(1)] by (rule run_threads_inv)
  then have ms: "mset (lst (queue c)) + sum_list (map popped_by (threads c))
         = sum_list (map appended_by (threads c))"
    and nf: "\<not> list_ex pop_failed (threads c)"
    by (simp_all add: threads_inv_def)
  have kinds: "sum_list (map item_of (threads c)) = sum_list (map item_of ts)"
    "sum_list (map is_popper (threads c)) = sum_list (map is_popper ts)"
    using run_threads_items [OF assms(2)] by (simp_all add: threads_init_def)
  have d: "sum_list (map appended_by (threads c)) = sum_list (map item_of (threads c))"
    "size (sum_list (map popped_by (threads c))) = sum_list (map is_popper (threads c))"
    using done_sums [OF assms(3) nf] by simp_all
  show eq: "mset (lst (queue c)) + sum_list (map popped_by (threads c)) = sum_list (map item_of ts)"
    using ms d(1) kinds(1) by simp
  assume n: "size (sum_list (map item_of ts)) = sum_list (map is_popper ts)"
  have "size (mset (lst (queue c))) + size (sum_list (map popped_by (threads c)))
      = size (sum_list (map item_of ts))"
    using arg_cong [OF eq, of size] by simp
  then have "lst (queue c) = []"
    using n d(2) kinds(2) by simp
  then show "lst (queue c) = [] \<and> sum_list (map popped_by (threads c)) = sum_list (map item_of ts)"
    using eq by simp
qed

lemma append_thread_alone:
  assumes "\<not> lock c" and "i < length (threads c)" and "threads c ! i = Append_lock x"
  shows "run_threads [i, i, i, i] c
     = Some (c\<lparr>queue := SyncList_append x (queue c), threads := (threads c)[i := Append_done x]\<rparr>)"
  using assms by (simp add: thread_step_def SyncList_append_def)

lemma pop_thread_alone:
  assumes "\<not> lock c" and "i < length (threads c)" and "threads c ! i = Pop_sem"
  shows "run_threads [i, i, i, i] c
     = (case SyncList_wait_pop (queue c) of
          None \<Rightarrow> None
        | Some (r, q) \<Rightarrow> Some (c\<lparr>queue := q, threads := (threads c)[i := Pop_done r]\<rparr>))"
  using assms
  by (simp add: thread_step_def SyncList_wait_pop_def Let_def split: list.split)

section \<open>Properties of the Condor backend\<close>

text \<open>
  When the statements before the submission did not raise and the submission fails,
  \<open>execute_task\<close> is the call of \<open>task_finished\<close> with the exception made for the
  failure; the task is finished, with that error, whenever loading its output file
  raises nothing but IOError or OSError.
\<close>

lemma execute_task_submission_fails:
  assumes "executable task = ExeString exe" and "py_split CHR ''/'' exe = p0 # p1 # ps"
    and "submit_file_error env = None" and "submission_fails env"
  shows "Condor_execute_task iface env r task
     = (fst (task_finished (Some (submission_error iface env)) (output_file env) task), iface,
        snd (task_finished (Some (submission_error iface env)) (output_file env) task))"
  using assms
  by (simp add: Condor_execute_task_def submission_fails_def submission_error_def
      split: popen_result.splits prod.splits)

lemma execute_task_submission_fails_finished:
  assumes "executable task = ExeString exe" and "py_split CHR ''/'' exe = p0 # p1 # ps"
    and "submit_file_error env = None" and "submission_fails env"
    and "\<forall>e. output_file env \<noteq> ReadRaises e"
  shows "\<exists>task1. Condor_execute_task iface env r task = (Returns (), iface, task1)
           \<and> finish_event task1 \<and> error task1 = Some (submission_error iface env)"
  unfolding execute_task_submission_fails [OF assms(1-4)]
  using assms(5)
  by (cases "output_file env") (simp_all add: task_finished_def Let_def)

lemma condor_example_task:
  "PyMW_Task_init ''job'' (ExeString ''scripts/worker.py'') (Some (1 :: nat)) ''tasks'' None
   = Inr \<lparr>task_name = ''job'', executable = ExeString ''scripts/worker.py'',
       input_data = Some (1 :: nat), output_data = None,
       input_arg = ''tasks/in_job.dat'', output_arg = ''tasks/out_job.dat'',
       error = None, finish_event = False\<rparr>"
  by (simp add: PyMW_Task_init_def)

text \<open>
  Claim C6 at a concrete input: the task \<open>job\<close> as its constructor makes it, no
  program \<open>condor_submit\<close> to start, and an output file \<open>tasks/out_job.dat\<close> that is
  there and empty, so that the unpickler raises EOFError. \<open>execute_task\<close> calls
  \<open>task_finished\<close> with the error, the EOFError passes through both methods, and the
  task is left with its finish event not set.
\<close>

theorem execute_task_unreadable_output:
  "Condor_execute_task (CondorInterface_init False [] [])
      \<lparr>submit_file_error = None, submit_result = PopenOSError,
       output_file = ReadRaises (EOFError [])\<rparr> 0
      \<lparr>task_name = ''job'', executable = ExeString ''scripts/worker.py'',
       input_data = Some (1 :: nat), output_data = None,
       input_arg = ''tasks/in_job.dat'', output_arg = ''tasks/out_job.dat'',
       error = None, finish_event = False\<rparr>
   = (Raises (EOFError []), CondorInterface_init False [] [],
      \<lparr>task_name = ''job'', executable = ExeString ''scripts/worker.py'',
       input_data = Some (1 :: nat), output_data = None,
       input_arg = ''tasks/in_job.dat'', output_arg = ''tasks/out_job.dat'',
       error = Some (Exception ''Could not find task submission program condor_submit''),
       finish_event = False\<rparr>)"
  by (simp add: Condor_execute_task_def CondorInterface_init_def task_finished_def)

end
